theory Spec2Isabelle
  imports Complex_Main "HOL-Library.Multiset"
begin

section \<open>Data model\<close>

text \<open>
  The templates of \<^verbatim>\<open>pennylane/templates/layers.py\<close> do not return a value: every
  gate they call is appended to the circuit under construction. The model makes this
  queue explicit. A gate application is an operation name, its positional parameters
  and the wires it acts on.
\<close>

datatype opname = CNOT | RX | RY | RZ | Rot | Squeezing | Displacement | Kerr
  | Beamsplitter | Rotation | Custom string

datatype ('p, 'w) operation = Op opname "'p list" "'w list"

fun op_wires :: "('p, 'w) operation \<Rightarrow> 'w list" where
  "op_wires (Op g ps ws) = ws"

fun op_params :: "('p, 'w) operation \<Rightarrow> 'p list" where
  "op_params (Op g ps ws) = ps"

fun op_name :: "('p, 'w) operation \<Rightarrow> opname" where
  "op_name (Op g ps ws) = g"

definition two_mode :: "('p, 'w) operation \<Rightarrow> bool" where
  "two_mode g = (length (op_wires g) = 2)"

text \<open>
  The exceptions the module raises, with their messages. \<open>IndexError\<close> is what Python
  raises when a list or array is read out of range. The \<open>ValueError\<close> of the two layer
  templates is the specification's \<^verbatim>\<open>InsufficientWiresError\<close>, the
  \<open>QuantumFunctionError\<close> of the interferometer its \<^verbatim>\<open>StructuralParameterError\<close>.
\<close>

datatype error = ValueError string | QuantumFunctionError string | IndexError

definition sel_msg :: string where
  "sel_msg = ''StronglyEntanglingLayer requires at least two wires or subsystems to apply the imprimitive gates.''"

definition rl_msg :: string where
  "rl_msg = ''RandomLayer requires at least two wires or subsystems to apply the imprimitive gates.''"

definition bs_msg :: string where
  "bs_msg = ''The beamsplitter parameter influences the circuit architecture and can not be passed as a QNode parameter.''"

definition mesh_msg :: string where
  "mesh_msg = ''The mesh parameter influences the circuit architecture and can not be passed as a QNode parameter.''"

definition choice_msg :: string where
  "choice_msg = ''a must be non-empty''"

definition unique_msg :: string where
  "unique_msg = ''wires must be unique''"

text \<open>
  The \<open>mesh\<close> and \<open>beamsplitter\<close> arguments of the interferometer: a string, or a
  \<^verbatim>\<open>pennylane.variable.Variable\<close> (a traced QNode parameter).
\<close>

datatype selector = Str string | Variable

text \<open>
  The \<open>wires\<close> argument of the interferometer: a \<^verbatim>\<open>Sequence\<close>, or any other object,
  which is then taken as a single wire.
\<close>

datatype 'w wires_arg = Seq "'w list" | NotSeq 'w

section \<open>Python primitives\<close>

text \<open>Indexing \<open>xs[i]\<close>: negative indices count from the end, out of range raises.\<close>

definition index :: "'a list \<Rightarrow> int \<Rightarrow> error + 'a" where
  "index xs i =
     (if 0 \<le> i \<and> i < int (length xs) then Inr (xs ! nat i)
      else if - int (length xs) \<le> i \<and> i < 0 then Inr (xs ! nat (int (length xs) + i))
      else Inl IndexError)"

text \<open>\<open>range(stop)\<close>, \<open>range(start, stop, step)\<close> for a positive step, \<open>enumerate(xs)\<close>.\<close>

definition range1 :: "int \<Rightarrow> int list" where
  "range1 stop = map int [0..<nat stop]"

definition range3 :: "int \<Rightarrow> int \<Rightarrow> int \<Rightarrow> int list" where
  "range3 start stop step =
     map (\<lambda>j. start + int j * step) [0..<nat ((stop - start + step - 1) div step)]"

definition enumerate_py :: "'a list \<Rightarrow> (int \<times> 'a) list" where
  "enumerate_py xs = zip (map int [0..<length xs]) xs"

section \<open>Statements that may raise\<close>

text \<open>
  A statement takes the state and returns the state it leaves together with the
  exception it raised, if any. \<open>for_loop\<close> is a \<^verbatim>\<open>for\<close> loop: it leaves at the first
  iteration that raises. \<open>attempt\<close> evaluates an expression that may raise and passes its
  value on.
\<close>

type_synonym 's stmt = "'s \<Rightarrow> 's \<times> error option"

fun for_loop :: "'x list \<Rightarrow> ('x \<Rightarrow> 's stmt) \<Rightarrow> 's stmt" where
  "for_loop [] body s = (s, None)"
| "for_loop (x # xs) body s =
     (case body x s of
        (s', None) \<Rightarrow> for_loop xs body s'
      | (s', Some e) \<Rightarrow> (s', Some e))"

definition attempt :: "error + 'a \<Rightarrow> ('a \<Rightarrow> 's stmt) \<Rightarrow> 's stmt" where
  "attempt e f s = (case e of Inl err \<Rightarrow> (s, Some err) | Inr v \<Rightarrow> f v s)"

definition seq :: "'s stmt \<Rightarrow> 's stmt \<Rightarrow> 's stmt" where
  "seq a b s = (case a s of (s', None) \<Rightarrow> b s' | (s', Some e) \<Rightarrow> (s', Some e))"

text \<open>Calling a gate appends it to the queue.\<close>

type_synonym ('p, 'w) queue = "('p, 'w) operation list"

definition emit :: "('p, 'w) operation \<Rightarrow> ('p, 'w) queue stmt" where
  "emit g q = (q @ [g], None)"

text \<open>
  Modelled from the spec: the gate classes of \<^verbatim>\<open>pennylane.ops\<close> (\<open>Rot\<close>, \<open>CNOT\<close> and
  the others) are missing from the sources; the templates only call them. The
  specification has a gate act on an ordered set of target wires and asks the range of
  an entangling layer for a well-defined pairing of every wire; the constructor of a
  gate accordingly refuses a wire list that names a wire twice, with a \<open>ValueError\<close>
  (wires must be unique), and queues the gate otherwise. \<open>StronglyEntanglingLayer\<close>
  computes the second wire of a gate from the first, so its gate calls carry this check.
  The other templates take the two wires of a gate from two different positions of the
  caller's wire list, where the check cannot fail on distinct wires; their gate calls
  are plain appends.
\<close>

definition call_gate :: "('p, 'w) operation \<Rightarrow> ('p, 'w) queue stmt" where
  "call_gate g = (if distinct (op_wires g) then emit g
                  else (\<lambda>q. (q, Some (ValueError unique_msg))))"

section \<open>StronglyEntanglingLayer and StronglyEntanglingLayers\<close>

text \<open>
  \<open>weights[i, j]\<close> on a two-dimensional array, given as the list of its rows.
\<close>

definition index2 :: "'a list list \<Rightarrow> int \<Rightarrow> int \<Rightarrow> error + 'a" where
  "index2 m i j = (case index m i of Inl e \<Rightarrow> Inl e | Inr row \<Rightarrow> index row j)"

definition StronglyEntanglingLayer ::
  "'p list list \<Rightarrow> int \<Rightarrow> opname \<Rightarrow> 'w list \<Rightarrow> ('p, 'w) queue stmt" where
  "StronglyEntanglingLayer weights r imprimitive wires =
     (if length wires < 2 then (\<lambda>q. (q, Some (ValueError sel_msg)))
      else
        seq (for_loop (enumerate_py wires) (\<lambda>(i, wire).
               attempt (index2 weights i 0) (\<lambda>a.
               attempt (index2 weights i 1) (\<lambda>b.
               attempt (index2 weights i 2) (\<lambda>c.
                 call_gate (Op Rot [a, b, c] [wire]))))))
            (let num_wires = int (length wires) in
             for_loop (range1 num_wires) (\<lambda>i.
               attempt (index wires i) (\<lambda>w1.
               attempt (index wires ((i + r) mod num_wires)) (\<lambda>w2.
                 call_gate (Op imprimitive [] [w1, w2]))))))"

text \<open>
  \<open>ranges\<close> is \<open>None\<close> or a sequence; \<open>zip\<close> stops at the shorter of its arguments.
\<close>

definition StronglyEntanglingLayers ::
  "'p list list list \<Rightarrow> int list option \<Rightarrow> opname \<Rightarrow> 'w list \<Rightarrow> ('p, 'w) queue stmt" where
  "StronglyEntanglingLayers weights ranges imprimitive wires =
     (let ranges' = (case ranges of None \<Rightarrow> replicate (length weights) 1 | Some rs \<Rightarrow> rs)
      in for_loop (zip weights ranges') (\<lambda>(block_weights, block_range).
           StronglyEntanglingLayer block_weights block_range imprimitive wires))"

section \<open>Interferometer\<close>

text \<open>
  The state of the mesh loops is the queue and the counter \<open>n\<close> of consumed
  parameters.
\<close>

type_synonym ('p, 'w) mesh_state = "('p, 'w) queue \<times> int"

definition emit_m :: "('p, 'w) operation \<Rightarrow> ('p, 'w) mesh_state stmt" where
  "emit_m g = (\<lambda>(q, n). ((q @ [g], n), None))"

definition incr_n :: "('p, 'w) mesh_state stmt" where
  "incr_n = (\<lambda>(q, n). ((q, n + 1), None))"

text \<open>The body of the inner loop of the rectangular mesh, in layer \<open>l\<close>.\<close>

definition rectangular_body ::
  "'p list \<Rightarrow> 'p list \<Rightarrow> selector \<Rightarrow> int \<Rightarrow> int \<times> 'w \<times> 'w \<Rightarrow> ('p::zero, 'w) mesh_state stmt" where
  "rectangular_body theta phi beamsplitter l = (\<lambda>(k, (w1, w2)).
     if (l + k) mod 2 \<noteq> 1 then
       seq (if beamsplitter = Str ''clements'' then
              (\<lambda>(q, n).
                 seq (attempt (index phi n) (\<lambda>p. emit_m (Op Rotation [p] [w1])))
                     (attempt (index theta n) (\<lambda>t. emit_m (Op Beamsplitter [t, 0] [w1, w2])))
                   (q, n))
            else
              (\<lambda>(q, n).
                 attempt (index theta n) (\<lambda>t.
                 attempt (index phi n) (\<lambda>p.
                   emit_m (Op Beamsplitter [t, p] [w1, w2]))) (q, n)))
           incr_n
     else (\<lambda>s. (s, None)))"

definition rectangular_mesh ::
  "'p list \<Rightarrow> 'p list \<Rightarrow> 'w list \<Rightarrow> selector \<Rightarrow> ('p::zero, 'w) mesh_state stmt" where
  "rectangular_mesh theta phi w beamsplitter =
     for_loop (range1 (int (length w))) (\<lambda>l.
       for_loop (enumerate_py (zip (butlast w) (tl w)))
         (rectangular_body theta phi beamsplitter l))"

text \<open>The body of the inner loop of the triangular mesh.\<close>

definition triangular_body ::
  "'p list \<Rightarrow> 'p list \<Rightarrow> 'w list \<Rightarrow> selector \<Rightarrow> int \<Rightarrow> ('p::zero, 'w) mesh_state stmt" where
  "triangular_body theta phi w beamsplitter k =
     seq (if beamsplitter = Str ''clements'' then
            (\<lambda>(q, n).
               seq (attempt (index phi n) (\<lambda>p.
                    attempt (index w k) (\<lambda>w1.
                      emit_m (Op Rotation [p] [w1]))))
                   (attempt (index theta n) (\<lambda>t.
                    attempt (index w k) (\<lambda>w1.
                    attempt (index w (k + 1)) (\<lambda>w2.
                      emit_m (Op Beamsplitter [t, 0] [w1, w2])))))
                 (q, n))
          else
            (\<lambda>(q, n).
               attempt (index theta n) (\<lambda>t.
               attempt (index phi n) (\<lambda>p.
               attempt (index w k) (\<lambda>w1.
               attempt (index w (k + 1)) (\<lambda>w2.
                 emit_m (Op Beamsplitter [t, p] [w1, w2]))))) (q, n)))
         incr_n"

definition triangular_mesh ::
  "'p list \<Rightarrow> 'p list \<Rightarrow> 'w list \<Rightarrow> selector \<Rightarrow> ('p::zero, 'w) mesh_state stmt" where
  "triangular_mesh theta phi w beamsplitter =
     (let N = int (length w) in
      for_loop (range1 (2 * N - 3)) (\<lambda>l.
        for_loop (range3 (abs (l + 1 - (N - 1))) (N - 1) 2)
          (triangular_body theta phi w beamsplitter)))"

definition final_rotations :: "'p list \<Rightarrow> 'w list \<Rightarrow> ('p, 'w) queue stmt" where
  "final_rotations varphi w =
     for_loop (enumerate_py varphi) (\<lambda>(i, p).
       attempt (index w i) (\<lambda>wi. emit (Op Rotation [p] [wi])))"

definition Interferometer ::
  "'p list \<Rightarrow> 'p list \<Rightarrow> 'p list \<Rightarrow> 'w wires_arg \<Rightarrow> selector \<Rightarrow> selector
     \<Rightarrow> ('p::zero, 'w) queue \<times> error option" where
  "Interferometer theta phi varphi wires mesh beamsplitter =
     (if beamsplitter = Variable then ([], Some (QuantumFunctionError bs_msg))
      else if mesh = Variable then ([], Some (QuantumFunctionError mesh_msg))
      else
        let w = (case wires of Seq ws \<Rightarrow> ws | NotSeq x \<Rightarrow> [x]);
            N = length w
        in
          if N = 1 then
            attempt (index varphi 0) (\<lambda>p.
            attempt (index w 0) (\<lambda>w0.
              emit (Op Rotation [p] [w0]))) []
          else
            (case (if mesh = Str ''rectangular'' then
                     rectangular_mesh theta phi w beamsplitter ([], 0)
                   else if mesh = Str ''triangular'' then
                     triangular_mesh theta phi w beamsplitter ([], 0)
                   else (([], 0), None)) of
               ((q, n), Some e) \<Rightarrow> (q, Some e)
             | ((q, n), None) \<Rightarrow> final_rotations varphi w q))"

section \<open>RandomLayer\<close>

text \<open>
  The random source is injected: \<open>rnd t\<close> holds what the generator returns in the
  \<open>t\<close>-th iteration of the loop, namely the value \<open>u\<close> of \<^verbatim>\<open>np.random.random()\<close>,
  the raw draws behind the two calls of \<^verbatim>\<open>np.random.choice\<close> and the index
  permutation behind \<^verbatim>\<open>np.random.permutation\<close>. An iteration reads only the draws
  of the calls it makes.
\<close>

record draw =
  u :: real
  gate_draw :: nat
  wire_draw :: nat
  perm_draw :: "nat list"

text \<open>
  \<^verbatim>\<open>np.random.choice(xs)\<close> raises a \<open>ValueError\<close> on an empty sequence and returns
  one of the entries otherwise. \<^verbatim>\<open>np.random.permutation(xs)\<close> rearranges \<open>xs\<close>; the
  draw is well formed when it is a permutation of the positions of \<open>xs\<close>.
\<close>

definition choice :: "'a list \<Rightarrow> nat \<Rightarrow> error + 'a" where
  "choice xs d = (if xs = [] then Inl (ValueError choice_msg) else Inr (xs ! (d mod length xs)))"

definition permutation :: "'a list \<Rightarrow> nat list \<Rightarrow> 'a list" where
  "permutation xs p = map (\<lambda>j. xs ! j) p"

definition valid_perm :: "'a list \<Rightarrow> nat list \<Rightarrow> bool" where
  "valid_perm xs p = (mset p = mset [0..<length xs])"

text \<open>
  One iteration of the \<^verbatim>\<open>while\<close> loop, on the counter \<open>i\<close> and the queue.
\<close>

type_synonym ('p, 'w) rl_state = "int \<times> ('p, 'w) queue"

definition RandomLayer_body ::
  "'p list \<Rightarrow> real \<Rightarrow> opname \<Rightarrow> opname list \<Rightarrow> 'w list \<Rightarrow> draw \<Rightarrow> ('p, 'w) rl_state stmt" where
  "RandomLayer_body weights ratio_imprim imprimitive rotations wires d =
     (\<lambda>(i, q).
        if u d > ratio_imprim then
          attempt (choice rotations (gate_draw d)) (\<lambda>gate.
          attempt (choice wires (wire_draw d)) (\<lambda>wire.
          attempt (index weights i) (\<lambda>x (i, q).
            ((i + 1, q @ [Op gate [x] [wire]]), None)))) (i, q)
        else
          (let on_wires = take 2 (permutation wires (perm_draw d))
           in ((i, q @ [Op imprimitive [] on_wires]), None)))"

text \<open>
  The loop may run forever, so it is a partial function: \<open>None\<close> is a run that never
  returns, \<open>Some\<close> holds the queue and the exception raised, if any.
\<close>

partial_function (option) RandomLayer_loop ::
  "'p list \<Rightarrow> real \<Rightarrow> opname \<Rightarrow> opname list \<Rightarrow> 'w list \<Rightarrow> (nat \<Rightarrow> draw) \<Rightarrow> nat
     \<Rightarrow> ('p, 'w) rl_state \<Rightarrow> (('p, 'w) queue \<times> error option) option" where
  "RandomLayer_loop weights ratio_imprim imprimitive rotations wires rnd t s =
     (if fst s < int (length weights) then
        (let r = RandomLayer_body weights ratio_imprim imprimitive rotations wires (rnd t) s
         in if snd r = None
            then RandomLayer_loop weights ratio_imprim imprimitive rotations wires rnd (Suc t) (fst r)
            else Some (snd (fst r), snd r))
      else Some (snd s, None))"

declare RandomLayer_loop.simps [code]

definition RandomLayer ::
  "'p list \<Rightarrow> real \<Rightarrow> opname \<Rightarrow> opname list \<Rightarrow> 'w list \<Rightarrow> (nat \<Rightarrow> draw)
     \<Rightarrow> (('p, 'w) queue \<times> error option) option" where
  "RandomLayer weights ratio_imprim imprimitive rotations wires rnd =
     (if length wires < 2 then Some ([], Some (ValueError rl_msg))
      else RandomLayer_loop weights ratio_imprim imprimitive rotations wires rnd 0 (0, []))"

section \<open>The mesh layouts of the specification\<close>








section \<open>The entangling layer of the specification\<close>

text \<open>
  The gates of one strongly entangling layer as the specification words it: for each
  wire \<open>i\<close> a rotation with the three angles of row \<open>i\<close>, then for each wire \<open>i\<close> an
  imprimitive gate on the wires \<open>i\<close> and \<open>(i + r) mod n\<close>.
\<close>


definition layer_gates :: "'p list list \<Rightarrow> int \<Rightarrow> opname \<Rightarrow> 'w list \<Rightarrow> ('p, 'w) operation list" where
  "layer_gates weights r imprimitive wires =
     map (\<lambda>i. Op Rot [weights ! i ! 0, weights ! i ! 1, weights ! i ! 2] [wires ! i])
         [0..<length wires]
     @ map (\<lambda>i. Op imprimitive [] [wires ! i, wires ! nat ((int i + r) mod int (length wires))])
         [0..<length wires]"

text \<open>A weight matrix with \<open>n\<close> rows of three angles.\<close>

definition n_by_3 :: "nat \<Rightarrow> 'p list list \<Rightarrow> bool" where
  "n_by_3 n weights = (length weights = n \<and> list_all (\<lambda>row. length row = 3) weights)"

section \<open>Random sources and the rotations of a random layer\<close>

text \<open>
  Two random sources: one whose first value of \<open>u\<close> is \<open>0\<close> and every later one
  \<open>1/2\<close>, and one that always returns \<open>1/2\<close>. Both stay in \<open>[0, 1)\<close>.
\<close>

definition zero_then_half :: "nat \<Rightarrow> draw" where
  "zero_then_half t = \<lparr>u = (if t = 0 then 0 else 1 / 2), gate_draw = 0, wire_draw = 0, perm_draw = [0, 1]\<rparr>"

definition always_half :: "nat \<Rightarrow> draw" where
  "always_half t = \<lparr>u = 1 / 2, gate_draw = 0, wire_draw = 0, perm_draw = [0, 1]\<rparr>"

text \<open>
  The rotation gate called in iteration \<open>t\<close> on the weight entry \<open>j\<close>, and the number
  of iterations from \<open>t\<close> up to \<open>T\<close> whose draw exceeds the ratio.
\<close>

definition rotation_gate :: "'p list \<Rightarrow> opname list \<Rightarrow> 'w list \<Rightarrow> (nat \<Rightarrow> draw) \<Rightarrow> nat \<Rightarrow> nat
    \<Rightarrow> ('p, 'w) operation" where
  "rotation_gate weights rotations wires rnd t j =
     Op (rotations ! (gate_draw (rnd t) mod length rotations)) [weights ! j]
        [wires ! (wire_draw (rnd t) mod length wires)]"


section \<open>The two beamsplitter conventions\<close>

text \<open>
  What the \<open>clements\<close> convention makes of a gate of the standard convention: a
  beamsplitter with \<open>(t, p)\<close> on two wires becomes a rotation by \<open>p\<close> on the first wire
  followed by the beamsplitter with \<open>(t, 0)\<close>; any other gate stays. \<open>zero_phase\<close> is
  the two-mode gate alone.
\<close>

definition clements_form :: "('p::zero, 'w) operation \<Rightarrow> ('p, 'w) operation list" where
  "clements_form g =
     (if op_name g = Beamsplitter \<and> length (op_params g) = 2 \<and> length (op_wires g) = 2
      then [Op Rotation [op_params g ! 1] [op_wires g ! 0],
            Op Beamsplitter [op_params g ! 0, 0] (op_wires g)]
      else [g])"

definition zero_phase :: "('p::zero, 'w) operation \<Rightarrow> ('p, 'w) operation" where
  "zero_phase g =
     (if op_name g = Beamsplitter \<and> length (op_params g) = 2 \<and> length (op_wires g) = 2
      then Op Beamsplitter [op_params g ! 0, 0] (op_wires g)
      else g)"

text \<open>
  The relation between a run under the standard convention and the run under
  \<open>clements\<close> on the same inputs: the same counter and the converted queue while no
  exception is raised, the same two-mode gates when one is.
\<close>

definition same_mesh :: "('p::zero, 'w) mesh_state \<Rightarrow> ('p, 'w) mesh_state \<Rightarrow> bool" where
  "same_mesh s c = (snd c = snd s \<and> fst c = concat (map clements_form (fst s)))"

definition same_two_mode :: "('p::zero, 'w) mesh_state \<Rightarrow> ('p, 'w) mesh_state \<Rightarrow> bool" where
  "same_two_mode s c = (filter two_mode (fst c) = map zero_phase (filter two_mode (fst s)))"

definition same_outcome ::
  "('p::zero, 'w) mesh_state \<times> error option \<Rightarrow> ('p, 'w) mesh_state \<times> error option \<Rightarrow> bool" where
  "same_outcome rs rc =
     (snd rc = snd rs \<and> (if snd rs = None then same_mesh (fst rs) (fst rc)
                          else same_two_mode (fst rs) (fst rc)))"

section \<open>Loops that do not raise\<close>

lemma index_int: "i < length xs \<Longrightarrow> index xs (int i) = Inr (xs ! i)"
  by (simp add: index_def)

lemma for_loop_map: "for_loop (map f xs) body s = for_loop xs (\<lambda>x. body (f x)) s"
  by (induction xs arbitrary: s) (auto split: prod.splits option.splits)

lemma for_loop_emit:
  assumes "\<And>x q. x \<in> set xs \<Longrightarrow> body x q = (q @ g x, None)"
  shows "for_loop xs body q = (q @ concat (map g xs), None)"
  using assms by (induction xs arbitrary: q) auto



section \<open>The mesh loops on parameter arrays that are long enough\<close>
























lemma for_loop_filter:
  assumes "\<And>x q. x \<in> set xs \<Longrightarrow> filter P (fst (body x q)) = filter P q"
  shows "filter P (fst (for_loop xs body q)) = filter P q"
  using assms
proof (induction xs arbitrary: q)
  case Nil
  then show ?case by simp
next
  case (Cons x xs)
  obtain q' e where b: "body x q = (q', e)" by (cases "body x q")
  have q': "filter P q' = filter P q" using Cons.prems [of x q] b by simp
  show ?case
  proof (cases e)
    case None
    have "filter P (fst (for_loop xs body q')) = filter P q'"
      by (rule Cons.IH) (use Cons.prems in auto)
    with b None q' show ?thesis by simp
  next
    case (Some err)
    with b q' show ?thesis by simp
  qed
qed

lemma final_rotations_two_mode:
  "filter two_mode (fst (final_rotations varphi w q)) = filter two_mode q"
  unfolding final_rotations_def
  by (rule for_loop_filter) (auto simp: attempt_def emit_def two_mode_def split: sum.splits)




section \<open>Interferometer: the rectangular mesh\<close>




section \<open>Interferometer: the triangular mesh\<close>




section \<open>Interferometer: traced selectors\<close>

text \<open>
  C7. When the \<open>mesh\<close> selector or the \<open>beamsplitter\<close> selector is a \<open>Variable\<close>, the
  interferometer raises a \<open>QuantumFunctionError\<close> (the specification's
  \<^verbatim>\<open>StructuralParameterError\<close>), and the queue is still empty: no gate has been called
  before the exception.
\<close>

theorem Interferometer_traced_selector:
  "mesh = Variable \<or> beamsplitter = Variable \<Longrightarrow>
     \<exists>msg. Interferometer theta phi varphi wires mesh beamsplitter
              = ([], Some (QuantumFunctionError msg))"
  by (auto simp: Interferometer_def)

theorem Interferometer_traced_selector_witness:
  "(Variable = Variable \<or> Str ''clements'' = Variable) \<and>
   (\<exists>msg. Interferometer [1, 2, 3 :: int] [4, 5, 6] [7, 8, 9] (Seq [0, 1, 2 :: nat])
             Variable (Str ''clements'') = ([], Some (QuantumFunctionError msg)))"
  using Interferometer_traced_selector
    [of Variable "Str ''clements''" "[1, 2, 3 :: int]" "[4, 5, 6]" "[7, 8, 9]" "Seq [0, 1, 2 :: nat]"]
  by simp

section \<open>StronglyEntanglingLayer on well-shaped weights\<close>

lemma enumerate_py_map: "enumerate_py xs = map (\<lambda>i. (int i, xs ! i)) [0..<length xs]"
  by (rule nth_equalityI) (simp_all add: enumerate_py_def)

lemma index2_int:
  "i < length m \<Longrightarrow> j < length (m ! i) \<Longrightarrow> index2 m (int i) (int j) = Inr (m ! i ! j)"
  by (simp add: index2_def index_int)

lemma n_by_3_row: "n_by_3 n weights \<Longrightarrow> i < n \<Longrightarrow> length (weights ! i) = 3"
  by (auto simp: n_by_3_def list_all_length)

lemma concat_singletons: "concat (map (\<lambda>i. [f i]) xs) = map f xs"
  by (induction xs) simp_all

lemma shifted_position:
  assumes "i < n" and "r mod int n \<noteq> 0"
  shows "nat ((int i + r) mod int n) \<noteq> i"
proof
  assume "nat ((int i + r) mod int n) = i"
  moreover have "0 \<le> (int i + r) mod int n" using assms(1) by simp
  ultimately have "(int i + r) mod int n = int i" by linarith
  moreover have "int i mod int n = int i" using assms(1) by simp
  ultimately have "(int i + r) mod int n = int i mod int n" by simp
  then have "int n dvd (int i + r) - int i" by (simp only: mod_eq_dvd_iff)
  then have "r mod int n = 0" by simp
  with assms(2) show False by simp
qed

lemma rotations_loop:
  assumes "n_by_3 (length wires) weights"
  shows "for_loop (enumerate_py wires) (\<lambda>(i, wire).
               attempt (index2 weights i 0) (\<lambda>a.
               attempt (index2 weights i 1) (\<lambda>b.
               attempt (index2 weights i 2) (\<lambda>c.
                 call_gate (Op Rot [a, b, c] [wire]))))) q
         = (q @ map (\<lambda>i. Op Rot [weights ! i ! 0, weights ! i ! 1, weights ! i ! 2] [wires ! i])
                    [0..<length wires], None)"
proof -
  let ?n = "length wires"
  have len: "length weights = ?n" using assms by (simp add: n_by_3_def)
  have "for_loop [0..<?n] (\<lambda>i.
               attempt (index2 weights (int i) 0) (\<lambda>a.
               attempt (index2 weights (int i) 1) (\<lambda>b.
               attempt (index2 weights (int i) 2) (\<lambda>c.
                 call_gate (Op Rot [a, b, c] [wires ! i]))))) q
        = (q @ concat (map (\<lambda>i. [Op Rot [weights ! i ! 0, weights ! i ! 1, weights ! i ! 2] [wires ! i]])
                        [0..<?n]), None)"
  proof (rule for_loop_emit)
    fix i q'
    assume "i \<in> set [0..<?n]"
    then have i: "i < ?n" by simp
    have "index2 weights (int i) 0 = Inr (weights ! i ! 0)"
         "index2 weights (int i) 1 = Inr (weights ! i ! 1)"
         "index2 weights (int i) 2 = Inr (weights ! i ! 2)"
      using index2_int [of i weights 0] index2_int [of i weights 1] index2_int [of i weights 2]
        n_by_3_row [OF assms i] i len by simp_all
    then show "attempt (index2 weights (int i) 0) (\<lambda>a.
               attempt (index2 weights (int i) 1) (\<lambda>b.
               attempt (index2 weights (int i) 2) (\<lambda>c.
                 call_gate (Op Rot [a, b, c] [wires ! i])))) q'
        = (q' @ [Op Rot [weights ! i ! 0, weights ! i ! 1, weights ! i ! 2] [wires ! i]], None)"
      by (simp add: attempt_def call_gate_def emit_def)
  qed
  then show ?thesis
    by (simp add: enumerate_py_map for_loop_map concat_singletons)
qed

lemma imprimitive_loop:
  assumes "2 \<le> length wires" and "distinct wires" and "r mod int (length wires) \<noteq> 0"
  shows "for_loop (range1 (int (length wires))) (\<lambda>i.
               attempt (index wires i) (\<lambda>w1.
               attempt (index wires ((i + r) mod int (length wires))) (\<lambda>w2.
                 call_gate (Op imprimitive [] [w1, w2])))) q
         = (q @ map (\<lambda>i. Op imprimitive [] [wires ! i, wires ! nat ((int i + r) mod int (length wires))])
                    [0..<length wires], None)"
proof -
  let ?n = "length wires"
  have "for_loop [0..<?n] (\<lambda>i.
               attempt (index wires (int i)) (\<lambda>w1.
               attempt (index wires ((int i + r) mod int ?n)) (\<lambda>w2.
                 call_gate (Op imprimitive [] [w1, w2])))) q
        = (q @ concat (map (\<lambda>i. [Op imprimitive [] [wires ! i, wires ! nat ((int i + r) mod int ?n)]])
                        [0..<?n]), None)"
  proof (rule for_loop_emit)
    fix i q'
    assume "i \<in> set [0..<?n]"
    then have i: "i < ?n" by simp
    have "0 < int ?n" using assms(1) by auto
    then have pos: "0 \<le> (int i + r) mod int ?n" "(int i + r) mod int ?n < int ?n"
      by (rule pos_mod_sign, rule pos_mod_bound)
    then have j: "nat ((int i + r) mod int ?n) < ?n" by linarith
    have ix: "index wires ((int i + r) mod int ?n) = Inr (wires ! nat ((int i + r) mod int ?n))"
      using pos by (simp add: index_def)
    have "wires ! i \<noteq> wires ! nat ((int i + r) mod int ?n)"
      using assms(2) i j shifted_position [OF i assms(3)] by (simp add: nth_eq_iff_index_eq)
    then show "attempt (index wires (int i)) (\<lambda>w1.
               attempt (index wires ((int i + r) mod int ?n)) (\<lambda>w2.
                 call_gate (Op imprimitive [] [w1, w2]))) q'
        = (q' @ [Op imprimitive [] [wires ! i, wires ! nat ((int i + r) mod int ?n)]], None)"
      using i ix by (simp add: attempt_def call_gate_def emit_def index_int)
  qed
  then show ?thesis
    by (simp add: range1_def for_loop_map concat_singletons)
qed

lemma imprimitive_loop_refused:
  assumes "2 \<le> length wires" and "r mod int (length wires) = 0"
  shows "for_loop (range1 (int (length wires))) (\<lambda>i.
               attempt (index wires i) (\<lambda>w1.
               attempt (index wires ((i + r) mod int (length wires))) (\<lambda>w2.
                 call_gate (Op imprimitive [] [w1, w2])))) q
         = (q, Some (ValueError unique_msg))"
proof -
  have "0 < length wires" using assms(1) by auto
  then have up: "[0..<length wires] = 0 # [Suc 0..<length wires]"
    by (rule upt_conv_Cons)
  have "index wires 0 = Inr (wires ! 0)"
    using assms(1) by (cases wires) (simp_all add: index_def)
  moreover have "range1 (int (length wires)) = 0 # map int [Suc 0..<length wires]"
    unfolding range1_def nat_int by (subst up) simp
  ultimately show ?thesis
    using assms(2) by (simp add: attempt_def call_gate_def)
qed

lemma StronglyEntanglingLayer_ok:
  assumes "2 \<le> length wires" and "n_by_3 (length wires) weights"
    and "distinct wires" and "r mod int (length wires) \<noteq> 0"
  shows "StronglyEntanglingLayer weights r imprimitive wires q
           = (q @ layer_gates weights r imprimitive wires, None)"
  using assms(1)
  by (simp add: StronglyEntanglingLayer_def Let_def seq_def rotations_loop [OF assms(2)]
      imprimitive_loop [OF assms(1,3,4)] layer_gates_def)

lemma StronglyEntanglingLayer_refused:
  assumes "2 \<le> length wires" and "n_by_3 (length wires) weights"
    and "r mod int (length wires) = 0"
  shows "StronglyEntanglingLayer weights r imprimitive wires q
           = (q @ map (\<lambda>i. Op Rot [weights ! i ! 0, weights ! i ! 1, weights ! i ! 2] [wires ! i])
                      [0..<length wires], Some (ValueError unique_msg))"
  using assms(1)
  by (simp add: StronglyEntanglingLayer_def Let_def seq_def rotations_loop [OF assms(2)]
      imprimitive_loop_refused [OF assms(1,3)])

text \<open>
  C8 says that the layer applies its \<open>n\<close> imprimitive gates for every range \<open>r\<close>. When
  \<open>r\<close> is a multiple of \<open>n\<close>, \<open>(i + r) mod n\<close> is \<open>i\<close>: the first imprimitive gate is
  called on the same wire twice and refuses, so the layer raises after its rotations.
\<close>

theorem StronglyEntanglingLayer_range_counterexample:
  "distinct [0, 1 :: nat]
   \<and> StronglyEntanglingLayer [[1, 2, 3], [4, 5, 6 :: int]] 2 CNOT [0, 1 :: nat] []
      = ([Op Rot [1, 2, 3] [0], Op Rot [4, 5, 6] [1]], Some (ValueError unique_msg))"
  by (simp add: StronglyEntanglingLayer_def Let_def seq_def enumerate_py_def range1_def
      attempt_def index2_def index_def call_gate_def emit_def upt_rec)

text \<open>
  C8, amended. On \<open>n \<ge> 2\<close> pairwise distinct wires, with an \<open>n\<close>-by-3 weight matrix, the
  layer first applies one three-angle rotation per wire \<open>i\<close> with row \<open>i\<close> of the weights.
  When the range \<open>r\<close> is not a multiple of \<open>n\<close> it then applies exactly \<open>n\<close> imprimitive
  gates, the \<open>i\<close>-th on \<open>(wires[i], wires[(i + r) mod n])\<close>, and returns; with four wires
  and \<open>r = 1\<close> the pairs are \<open>(0,1), (1,2), (2,3), (3,0)\<close>. When \<open>r\<close> is a multiple of \<open>n\<close>
  it raises the \<open>ValueError\<close> of the gate instead, with no imprimitive gate applied.
\<close>

theorem StronglyEntanglingLayer_gates:
  assumes "2 \<le> length wires" and "n_by_3 (length wires) weights" and "distinct wires"
  shows "(r mod int (length wires) \<noteq> 0 \<longrightarrow>
            StronglyEntanglingLayer weights r imprimitive wires []
              = (map (\<lambda>i. Op Rot [weights ! i ! 0, weights ! i ! 1, weights ! i ! 2] [wires ! i])
                     [0..<length wires]
                 @ map (\<lambda>i. Op imprimitive []
                                [wires ! i, wires ! nat ((int i + r) mod int (length wires))])
                     [0..<length wires], None))
       \<and> (r mod int (length wires) = 0 \<longrightarrow>
            StronglyEntanglingLayer weights r imprimitive wires []
              = (map (\<lambda>i. Op Rot [weights ! i ! 0, weights ! i ! 1, weights ! i ! 2] [wires ! i])
                     [0..<length wires], Some (ValueError unique_msg)))"
  using StronglyEntanglingLayer_ok [OF assms(1,2,3), of r imprimitive "[]"]
    StronglyEntanglingLayer_refused [OF assms(1,2), of r imprimitive "[]"]
  by (simp add: layer_gates_def)

theorem StronglyEntanglingLayer_gates_witness:
  "2 \<le> length [0, 1, 2, 3 :: nat]
   \<and> n_by_3 (length [0, 1, 2, 3 :: nat]) [[1, 2, 3], [4, 5, 6], [7, 8, 9], [10, 11, 12 :: int]]
   \<and> distinct [0, 1, 2, 3 :: nat]
   \<and> 1 mod int (length [0, 1, 2, 3 :: nat]) \<noteq> 0
   \<and> StronglyEntanglingLayer [[1, 2, 3], [4, 5, 6], [7, 8, 9], [10, 11, 12 :: int]] 1 CNOT
        [0, 1, 2, 3 :: nat] []
      = ([Op Rot [1, 2, 3] [0], Op Rot [4, 5, 6] [1], Op Rot [7, 8, 9] [2], Op Rot [10, 11, 12] [3],
          Op CNOT [] [0, 1], Op CNOT [] [1, 2], Op CNOT [] [2, 3], Op CNOT [] [3, 0]], None)
   \<and> 4 mod int (length [0, 1, 2, 3 :: nat]) = 0
   \<and> StronglyEntanglingLayer [[1, 2, 3], [4, 5, 6], [7, 8, 9], [10, 11, 12 :: int]] 4 CNOT
        [0, 1, 2, 3 :: nat] []
      = ([Op Rot [1, 2, 3] [0], Op Rot [4, 5, 6] [1], Op Rot [7, 8, 9] [2], Op Rot [10, 11, 12] [3]],
         Some (ValueError unique_msg))"
proof -
  have h: "2 \<le> length [0, 1, 2, 3 :: nat]"
    "n_by_3 (length [0, 1, 2, 3 :: nat]) [[1, 2, 3], [4, 5, 6], [7, 8, 9], [10, 11, 12 :: int]]"
    "distinct [0, 1, 2, 3 :: nat]"
    by (simp_all add: n_by_3_def)
  show ?thesis
    using h StronglyEntanglingLayer_gates [OF h, of 1 CNOT]
      StronglyEntanglingLayer_gates [OF h, of 4 CNOT]
    by (simp add: upt_rec)
qed

section \<open>StronglyEntanglingLayers\<close>

text \<open>
  C10 says that exactly \<open>min(L, m)\<close> layers are applied for every \<open>ranges\<close> of length
  \<open>m\<close>. A range that is a multiple of the number of wires makes its layer raise: with
  the ranges \<open>[1, 2]\<close> on two wires the second layer stops after its rotations.
\<close>

theorem StronglyEntanglingLayers_range_counterexample:
  "distinct [0, 1 :: nat]
   \<and> min (length [[[1, 2, 3], [4, 5, 6]], [[7, 8, 9], [10, 11, 12 :: int]]]) (length [1, 2 :: int]) = 2
   \<and> StronglyEntanglingLayers [[[1, 2, 3], [4, 5, 6]], [[7, 8, 9], [10, 11, 12 :: int]]]
        (Some [1, 2]) CNOT [0, 1 :: nat] []
      = ([Op Rot [1, 2, 3] [0], Op Rot [4, 5, 6] [1], Op CNOT [] [0, 1], Op CNOT [] [1, 0],
          Op Rot [7, 8, 9] [0], Op Rot [10, 11, 12] [1]], Some (ValueError unique_msg))"
  by (simp add: StronglyEntanglingLayers_def StronglyEntanglingLayer_def Let_def seq_def
      enumerate_py_def range1_def attempt_def index2_def index_def call_gate_def emit_def upt_rec)

text \<open>
  C10, amended. On \<open>n \<ge> 2\<close> pairwise distinct wires, with \<open>L\<close> weight blocks and an
  explicit \<open>ranges\<close> of length \<open>m\<close>, where the first \<open>min(L, m)\<close> blocks are \<open>n\<close>-by-3 and
  none of the first \<open>min(L, m)\<close> ranges is a multiple of \<open>n\<close>: exactly \<open>min(L, m)\<close> layers
  are applied, the blocks paired with the ranges by position; the blocks beyond the
  ranges are skipped without an error, whatever their shape. With \<open>ranges = None\<close> and
  \<open>L\<close> blocks that are all \<open>n\<close>-by-3, all \<open>L\<close> layers are applied, each with range 1.
\<close>

theorem StronglyEntanglingLayers_zip:
  fixes weights :: "'p list list list" and wires :: "'w list"
  assumes "2 \<le> length wires" and "distinct wires"
    and "list_all (n_by_3 (length wires)) (take (length ranges) weights)"
    and "list_all (\<lambda>r. r mod int (length wires) \<noteq> 0) (take (length weights) ranges)"
  shows "StronglyEntanglingLayers weights (Some ranges) imprimitive wires []
           = (concat (map (\<lambda>(block_weights, block_range).
                             layer_gates block_weights block_range imprimitive wires)
                          (zip weights ranges)), None)
       \<and> length (zip weights ranges) = min (length weights) (length ranges)
       \<and> length (fst (StronglyEntanglingLayers weights (Some ranges) imprimitive wires []))
           = min (length weights) (length ranges) * (2 * length wires)
       \<and> (list_all (n_by_3 (length wires)) weights \<longrightarrow>
            StronglyEntanglingLayers weights None imprimitive wires []
              = (concat (map (\<lambda>block_weights. layer_gates block_weights 1 imprimitive wires) weights),
                 None))"
proof -
  have shaped: "n_by_3 (length wires) bw \<and> r mod int (length wires) \<noteq> 0"
    if "(bw, r) \<in> set (zip weights ranges)" for bw r
  proof -
    from that obtain i where i: "i < length weights" "i < length ranges"
      "bw = weights ! i" "r = ranges ! i"
      by (auto simp: in_set_zip)
    then have "bw \<in> set (take (length ranges) weights)" "r \<in> set (take (length weights) ranges)"
      by (auto simp: in_set_conv_nth intro!: exI [of _ i])
    with assms(3,4) show ?thesis by (simp add: list_all_iff)
  qed
  have run: "StronglyEntanglingLayers weights (Some ranges) imprimitive wires []
           = ([] @ concat (map (\<lambda>(block_weights, block_range).
                             layer_gates block_weights block_range imprimitive wires)
                          (zip weights ranges)), None)"
    unfolding StronglyEntanglingLayers_def Let_def option.case
    by (rule for_loop_emit) (auto simp: StronglyEntanglingLayer_ok assms(1,2) dest: shaped)
  have len: "length (concat (map (\<lambda>(bw, r). layer_gates bw r imprimitive wires) xs))
               = length xs * (2 * length wires)" for xs :: "('p list list \<times> int) list"
    by (induction xs) (auto simp: layer_gates_def)
  have one: "1 mod int (length wires) \<noteq> 0"
    using assms(1) by (simp add: mod_pos_pos_trivial)
  have none: "StronglyEntanglingLayers weights None imprimitive wires []
              = ([] @ concat (map (\<lambda>(block_weights, block_range).
                             layer_gates block_weights block_range imprimitive wires)
                          (zip weights (replicate (length weights) 1))), None)"
    if "list_all (n_by_3 (length wires)) weights"
    unfolding StronglyEntanglingLayers_def Let_def option.case
  proof (rule for_loop_emit)
    fix x :: "'p list list \<times> int" and q :: "('p, 'w) operation list"
    assume x: "x \<in> set (zip weights (replicate (length weights) 1))"
    obtain bw r where xr: "x = (bw, r)" by (cases x)
    with x have "bw \<in> set weights" "r = 1"
      by (auto dest: set_zip_leftD set_zip_rightD)
    with that one have "n_by_3 (length wires) bw" "r mod int (length wires) \<noteq> 0"
      by (simp_all add: list_all_iff)
    then show "(case x of (block_weights, block_range) \<Rightarrow>
                  StronglyEntanglingLayer block_weights block_range imprimitive wires) q
             = (q @ (case x of (block_weights, block_range) \<Rightarrow>
                  layer_gates block_weights block_range imprimitive wires), None)"
      by (simp add: xr StronglyEntanglingLayer_ok assms(1,2))
  qed
  have rep: "map (\<lambda>(bw, r). layer_gates bw r imprimitive wires) (zip ws (replicate (length ws) 1))
               = map (\<lambda>bw. layer_gates bw 1 imprimitive wires) ws" for ws :: "'p list list list"
    by (rule nth_equalityI) simp_all
  show ?thesis
    using len [of "zip weights ranges"] rep [of weights]
    by (simp add: run none)
qed

theorem StronglyEntanglingLayers_zip_witness:
  "2 \<le> length [0, 1 :: nat] \<and> distinct [0, 1 :: nat]
   \<and> list_all (n_by_3 (length [0, 1 :: nat]))
        (take (length [1 :: int]) [[[1, 2, 3], [4, 5, 6]], [[7, 8, 9]], [[0 :: int]]])
   \<and> list_all (\<lambda>r. r mod int (length [0, 1 :: nat]) \<noteq> 0)
        (take (length [[[1, 2, 3], [4, 5, 6]], [[7, 8, 9]], [[0 :: int]]]) [1 :: int])
   \<and> StronglyEntanglingLayers [[[1, 2, 3], [4, 5, 6]], [[7, 8, 9]], [[0 :: int]]] (Some [1]) CNOT
        [0, 1 :: nat] []
      = ([Op Rot [1, 2, 3] [0], Op Rot [4, 5, 6] [1], Op CNOT [] [0, 1], Op CNOT [] [1, 0]], None)
   \<and> list_all (n_by_3 (length [0, 1 :: nat])) [[[1, 2, 3], [4, 5, 6]], [[7, 8, 9], [0, 0, 0 :: int]]]
   \<and> StronglyEntanglingLayers [[[1, 2, 3], [4, 5, 6]], [[7, 8, 9], [0, 0, 0 :: int]]] None CNOT
        [0, 1 :: nat] []
      = ([Op Rot [1, 2, 3] [0], Op Rot [4, 5, 6] [1], Op CNOT [] [0, 1], Op CNOT [] [1, 0],
          Op Rot [7, 8, 9] [0], Op Rot [0, 0, 0] [1], Op CNOT [] [0, 1], Op CNOT [] [1, 0]], None)"
proof -
  have h: "2 \<le> length [0, 1 :: nat]" "distinct [0, 1 :: nat]"
    "list_all (n_by_3 (length [0, 1 :: nat]))
        (take (length [1 :: int]) [[[1, 2, 3], [4, 5, 6]], [[7, 8, 9]], [[0 :: int]]])"
    "list_all (\<lambda>r. r mod int (length [0, 1 :: nat]) \<noteq> 0)
        (take (length [[[1, 2, 3], [4, 5, 6]], [[7, 8, 9]], [[0 :: int]]]) [1 :: int])"
    by (simp_all add: n_by_3_def)
  have g: "list_all (n_by_3 (length [0, 1 :: nat]))
        (take (length ([] :: int list)) [[[1, 2, 3], [4, 5, 6]], [[7, 8, 9], [0, 0, 0 :: int]]])"
    "list_all (\<lambda>r. r mod int (length [0, 1 :: nat]) \<noteq> 0)
        (take (length [[[1, 2, 3], [4, 5, 6]], [[7, 8, 9], [0, 0, 0 :: int]]]) ([] :: int list))"
    "list_all (n_by_3 (length [0, 1 :: nat])) [[[1, 2, 3], [4, 5, 6]], [[7, 8, 9], [0, 0, 0 :: int]]]"
    by (simp_all add: n_by_3_def)
  show ?thesis
    using h g(3) StronglyEntanglingLayers_zip [OF h, of CNOT]
      StronglyEntanglingLayers_zip [OF h(1,2) g(1,2), of CNOT]
    by (simp add: layer_gates_def upt_rec)
qed

section \<open>Interferometer: an unrecognised mesh\<close>

lemma final_rotations_ok:
  assumes "length varphi \<le> length w"
  shows "final_rotations varphi w q
           = (q @ map (\<lambda>i. Op Rotation [varphi ! i] [w ! i]) [0..<length varphi], None)"
proof -
  have "for_loop [0..<length varphi]
          (\<lambda>i. attempt (index w (int i)) (\<lambda>wi. emit (Op Rotation [varphi ! i] [wi]))) q
        = (q @ concat (map (\<lambda>i. [Op Rotation [varphi ! i] [w ! i]]) [0..<length varphi]), None)"
    by (rule for_loop_emit) (use assms in \<open>simp add: attempt_def emit_def index_int\<close>)
  moreover have "concat (map (\<lambda>i. [f i]) xs) = map f xs" for f :: "nat \<Rightarrow> ('a, 'b) operation" and xs
    by (induction xs) simp_all
  ultimately show ?thesis
    by (simp add: final_rotations_def enumerate_py_map for_loop_map)
qed

text \<open>
  C3 says that a mesh value other than \<open>'rectangular'\<close> and \<open>'triangular'\<close> makes the
  call fail. The code has no such branch: with the mesh \<open>'hexagonal'\<close> on two wires the
  call returns normally, having applied the two final rotations.
\<close>

theorem Interferometer_unknown_mesh_counterexample:
  "Interferometer [1 :: int] [2] [3, 4] (Seq [0, 1 :: nat]) (Str ''hexagonal'') (Str ''pennylane'')
     = ([Op Rotation [3] [0], Op Rotation [4] [1]], None)"
  by (simp add: Interferometer_def final_rotations_def enumerate_py_def attempt_def emit_def
      index_def)

text \<open>
  C3, amended. On two or more wires, with a mesh that is neither \<open>'rectangular'\<close> nor
  \<open>'triangular'\<close> (and no selector a \<open>Variable\<close>), the interferometer raises no error
  for the mesh: it emits no two-mode gate and runs only the final rotations, one per
  entry of \<open>varphi\<close>, and returns normally when \<open>varphi\<close> has at most \<open>N\<close> entries.
\<close>

theorem Interferometer_unknown_mesh:
  assumes "2 \<le> length w"
    and "mesh \<noteq> Str ''rectangular''" and "mesh \<noteq> Str ''triangular''" and "mesh \<noteq> Variable"
    and "beamsplitter \<noteq> Variable"
  shows "Interferometer theta phi varphi (Seq w) mesh beamsplitter = final_rotations varphi w []
       \<and> filter two_mode (fst (Interferometer theta phi varphi (Seq w) mesh beamsplitter)) = []
       \<and> (length varphi \<le> length w \<longrightarrow>
            Interferometer theta phi varphi (Seq w) mesh beamsplitter
              = (map (\<lambda>i. Op Rotation [varphi ! i] [w ! i]) [0..<length varphi], None))"
proof -
  have run: "Interferometer theta phi varphi (Seq w) mesh beamsplitter = final_rotations varphi w []"
    using assms by (simp add: Interferometer_def)
  show ?thesis
    using final_rotations_two_mode [of varphi w "[]"]
    by (simp add: run final_rotations_ok)
qed

theorem Interferometer_unknown_mesh_witness:
  "2 \<le> length [0, 1 :: nat]
   \<and> Str ''hexagonal'' \<noteq> Str ''rectangular'' \<and> Str ''hexagonal'' \<noteq> Str ''triangular''
   \<and> Str ''hexagonal'' \<noteq> Variable \<and> Str ''pennylane'' \<noteq> Variable
   \<and> length [3, 4 :: int] \<le> length [0, 1 :: nat]
   \<and> Interferometer [1 :: int] [2] [3, 4] (Seq [0, 1 :: nat]) (Str ''hexagonal'') (Str ''pennylane'')
      = ([Op Rotation [3] [0], Op Rotation [4] [1]], None)"
  using Interferometer_unknown_mesh
    [of "[0, 1 :: nat]" "Str ''hexagonal''" "Str ''pennylane''" "[1 :: int]" "[2]" "[3, 4]",
     THEN conjunct2, THEN conjunct2]
  by (simp add: upt_rec)

section \<open>The exceptions of the two layer templates\<close>

lemma for_loop_error:
  assumes "\<And>x s s' e. x \<in> set xs \<Longrightarrow> body x s = (s', Some e) \<Longrightarrow> P e"
    and "for_loop xs body s = (s', Some e)"
  shows "P e"
  using assms
proof (induction xs arbitrary: s)
  case Nil
  then show ?case by simp
next
  case (Cons x xs)
  obtain s1 e1 where b: "body x s = (s1, e1)" by (cases "body x s")
  show ?case
  proof (cases e1)
    case None
    with b Cons.prems(2) have "for_loop xs body s1 = (s', Some e)" by simp
    then show ?thesis using Cons.IH [of s1] Cons.prems(1) by auto
  next
    case (Some err)
    with b Cons.prems(2) have "e = err" by simp
    with b Some Cons.prems(1) [of x s s1 err] show ?thesis by simp
  qed
qed

lemma index_error: "index xs i = Inl e \<Longrightarrow> e = IndexError"
  by (simp add: index_def split: if_splits)

lemma index2_error: "index2 m i j = Inl e \<Longrightarrow> e = IndexError"
  by (auto simp: index2_def split: sum.splits dest: index_error)

lemma call_gate_error: "call_gate g q = (q', Some e) \<Longrightarrow> e = ValueError unique_msg"
  by (simp add: call_gate_def emit_def split: if_splits)

lemma StronglyEntanglingLayer_error:
  assumes "2 \<le> length wires"
    and "StronglyEntanglingLayer weights r imprimitive wires q = (q', Some e)"
  shows "e = IndexError \<or> e = ValueError unique_msg"
proof -
  let ?rots = "for_loop (enumerate_py wires) (\<lambda>(i, wire).
               attempt (index2 weights i 0) (\<lambda>a.
               attempt (index2 weights i 1) (\<lambda>b.
               attempt (index2 weights i 2) (\<lambda>c.
                 call_gate (Op Rot [a, b, c] [wire])))))"
  let ?imps = "for_loop (range1 (int (length wires))) (\<lambda>i.
               attempt (index wires i) (\<lambda>w1.
               attempt (index wires ((i + r) mod int (length wires))) (\<lambda>w2.
                 call_gate (Op imprimitive [] [w1, w2]))))"
  have r: "e' = IndexError \<or> e' = ValueError unique_msg" if "?rots s = (s', Some e')" for s s' e'
    using _ that
    by (rule for_loop_error)
       (auto simp: attempt_def split: sum.splits dest: index2_error call_gate_error)
  have i: "e' = IndexError \<or> e' = ValueError unique_msg" if "?imps s = (s', Some e')" for s s' e'
    using _ that
    by (rule for_loop_error)
       (auto simp: attempt_def split: sum.splits dest: index_error call_gate_error)
  have run: "seq ?rots ?imps q = (q', Some e)"
    using assms by (simp add: StronglyEntanglingLayer_def Let_def)
  obtain s1 e1 where first: "?rots q = (s1, e1)" by (cases "?rots q")
  show ?thesis
  proof (cases e1)
    case None
    with run first have "?imps s1 = (q', Some e)" by (simp add: seq_def)
    then show ?thesis by (rule i)
  next
    case (Some err)
    with run first have "?rots q = (q', Some e)" by (simp add: seq_def)
    then show ?thesis by (rule r)
  qed
qed

lemma choice_error: "choice xs d = Inl e \<Longrightarrow> e = ValueError choice_msg"
  by (simp add: choice_def split: if_splits)

lemma RandomLayer_body_error:
  "RandomLayer_body weights ratio_imprim imprimitive rotations wires d s = (s', Some e)
     \<Longrightarrow> e = ValueError choice_msg \<or> e = IndexError"
  by (cases s)
     (auto simp: RandomLayer_body_def attempt_def Let_def
        split: if_splits sum.splits dest: choice_error index_error)

lemma RandomLayer_loop_error:
  assumes "RandomLayer_loop weights ratio_imprim imprimitive rotations wires rnd t s = Some res"
  shows "\<forall>q e. res = (q, Some e) \<longrightarrow> e = ValueError choice_msg \<or> e = IndexError"
proof (rule RandomLayer_loop.raw_induct
    [where P = "\<lambda>_ _ _ _ _ _ _ _ res. \<forall>q e. res = (q, Some e) \<longrightarrow> e = ValueError choice_msg \<or> e = IndexError",
     OF _ assms], goal_cases)
  case (1 loop weights ratio_imprim imprimitive rotations wires rnd t s res)
  show ?case
  proof (cases "fst s < int (length weights)")
    case False
    with 1(2) show ?thesis by auto
  next
    case True
    obtain s1 e1 where b: "RandomLayer_body weights ratio_imprim imprimitive rotations wires (rnd t) s = (s1, e1)"
      by (cases "RandomLayer_body weights ratio_imprim imprimitive rotations wires (rnd t) s")
    show ?thesis
    proof (cases e1)
      case None
      with True b 1(2) have "loop weights ratio_imprim imprimitive rotations wires rnd (Suc t) s1 = Some res"
        by simp
      then show ?thesis by (rule 1(1))
    next
      case (Some err)
      with True b 1(2) have "res = (snd s1, Some err)" by auto
      with RandomLayer_body_error [of weights ratio_imprim imprimitive rotations wires "rnd t" s s1 err] b Some
      show ?thesis by simp
    qed
  qed
qed

text \<open>
  C9. With fewer than two wires, \<open>StronglyEntanglingLayer\<close> and \<open>RandomLayer\<close> raise
  their \<open>ValueError\<close> on the wires (the specification's \<^verbatim>\<open>InsufficientWiresError\<close>)
  and the queue is as it was: no gate has been called. With two or more wires neither
  raises that error. (\<open>RandomLayer\<close> can then still raise the \<open>ValueError\<close> of
  \<^verbatim>\<open>np.random.choice\<close> on an empty list of rotations, and \<open>StronglyEntanglingLayer\<close>
  that of a gate called on the same wire twice; both have another message and are not
  about the number of wires.)
\<close>

theorem insufficient_wires:
  "(length wires < 2 \<longrightarrow>
      StronglyEntanglingLayer weights r imprimitive wires q = (q, Some (ValueError sel_msg))
      \<and> RandomLayer weights' ratio_imprim imprimitive rotations wires rnd
          = Some ([], Some (ValueError rl_msg)))
   \<and> (2 \<le> length wires \<longrightarrow>
        snd (StronglyEntanglingLayer weights r imprimitive wires q) \<noteq> Some (ValueError sel_msg)
        \<and> (\<forall>q'. RandomLayer weights' ratio_imprim imprimitive rotations wires rnd
               \<noteq> Some (q', Some (ValueError rl_msg))))"
proof (intro conjI impI allI)
  assume "length wires < 2"
  then show "StronglyEntanglingLayer weights r imprimitive wires q = (q, Some (ValueError sel_msg))"
    by (simp add: StronglyEntanglingLayer_def)
next
  assume "length wires < 2"
  then show "RandomLayer weights' ratio_imprim imprimitive rotations wires rnd
          = Some ([], Some (ValueError rl_msg))"
    by (simp add: RandomLayer_def)
next
  assume w: "2 \<le> length wires"
  show "snd (StronglyEntanglingLayer weights r imprimitive wires q) \<noteq> Some (ValueError sel_msg)"
  proof
    assume "snd (StronglyEntanglingLayer weights r imprimitive wires q) = Some (ValueError sel_msg)"
    then obtain q' where "StronglyEntanglingLayer weights r imprimitive wires q = (q', Some (ValueError sel_msg))"
      by (cases "StronglyEntanglingLayer weights r imprimitive wires q") auto
    from StronglyEntanglingLayer_error [OF w this] show False
      by (simp add: sel_msg_def unique_msg_def)
  qed
next
  fix q'
  assume w: "2 \<le> length wires"
  show "RandomLayer weights' ratio_imprim imprimitive rotations wires rnd
               \<noteq> Some (q', Some (ValueError rl_msg))"
  proof
    assume "RandomLayer weights' ratio_imprim imprimitive rotations wires rnd
               = Some (q', Some (ValueError rl_msg))"
    with w have "RandomLayer_loop weights' ratio_imprim imprimitive rotations wires rnd 0 (0, [])
               = Some (q', Some (ValueError rl_msg))"
      by (simp add: RandomLayer_def)
    from RandomLayer_loop_error [OF this] show False
      by (simp add: rl_msg_def choice_msg_def)
  qed
qed

theorem insufficient_wires_witness:
  "length [0 :: nat] < 2
   \<and> StronglyEntanglingLayer [[1, 2, 3 :: int]] 1 CNOT [0 :: nat] [] = ([], Some (ValueError sel_msg))
   \<and> RandomLayer [1 :: int] (3 / 10) CNOT [RX, RY, RZ] [0 :: nat] (\<lambda>t. \<lparr>u = 1 / 2, gate_draw = 0, wire_draw = 0, perm_draw = [0]\<rparr>)
        = Some ([], Some (ValueError rl_msg))
   \<and> 2 \<le> length [0, 1 :: nat]
   \<and> snd (StronglyEntanglingLayer [[1, 2, 3 :: int]] 1 CNOT [0, 1 :: nat] []) \<noteq> Some (ValueError sel_msg)
   \<and> RandomLayer [1 :: int] (3 / 10) CNOT [RX, RY, RZ] [0, 1 :: nat] (\<lambda>t. \<lparr>u = 1 / 2, gate_draw = 0, wire_draw = 0, perm_draw = [0, 1]\<rparr>)
        \<noteq> Some ([], Some (ValueError rl_msg))"
  using insufficient_wires [of "[0 :: nat]" "[[1, 2, 3 :: int]]" 1 CNOT "[]" "[1 :: int]" "3 / 10" "[RX, RY, RZ]"
          "\<lambda>t. \<lparr>u = 1 / 2, gate_draw = 0, wire_draw = 0, perm_draw = [0]\<rparr>"]
        insufficient_wires [of "[0, 1 :: nat]" "[[1, 2, 3 :: int]]" 1 CNOT "[]" "[1 :: int]" "3 / 10" "[RX, RY, RZ]"
          "\<lambda>t. \<lparr>u = 1 / 2, gate_draw = 0, wire_draw = 0, perm_draw = [0, 1]\<rparr>"]
  by simp

section \<open>RandomLayer: the loop\<close>

lemma RandomLayer_body_rotation:
  assumes "ratio_imprim < u d" "rotations \<noteq> []" "wires \<noteq> []" "i < length weights"
  shows "RandomLayer_body weights ratio_imprim imprimitive rotations wires d (int i, q)
           = ((int (Suc i), q @ [Op (rotations ! (gate_draw d mod length rotations)) [weights ! i]
                                    [wires ! (wire_draw d mod length wires)]]), None)"
  using assms by (simp add: RandomLayer_body_def attempt_def choice_def index_int)


lemma RandomLayer_loop_done:
  "\<not> fst s < int (length weights) \<Longrightarrow>
     RandomLayer_loop weights ratio_imprim imprimitive rotations wires rnd t s = Some (snd s, None)"
  by (subst RandomLayer_loop.simps) simp

lemma RandomLayer_loop_rotation:
  assumes "ratio_imprim < u (rnd t)" "rotations \<noteq> []" "wires \<noteq> []" "i < length weights"
  shows "RandomLayer_loop weights ratio_imprim imprimitive rotations wires rnd t (int i, q)
       = RandomLayer_loop weights ratio_imprim imprimitive rotations wires rnd (Suc t)
           (int (Suc i), q @ [rotation_gate weights rotations wires rnd t i])"
  using assms
  by (subst RandomLayer_loop.simps)
     (simp add: RandomLayer_body_rotation rotation_gate_def del: of_nat_Suc)


lemma RandomLayer_loop_all_rotations:
  assumes "\<And>t. ratio_imprim < u (rnd t)" "rotations \<noteq> []" "wires \<noteq> []" "i \<le> length weights"
  shows "RandomLayer_loop weights ratio_imprim imprimitive rotations wires rnd i (int i, q)
       = Some (q @ map (\<lambda>j. rotation_gate weights rotations wires rnd j j) [i..<length weights], None)"
  using assms(4)
proof (induction "length weights - i" arbitrary: i q)
  case 0
  then show ?case by (simp add: RandomLayer_loop_done)
next
  case (Suc d)
  then have i: "i < length weights" by simp
  have "RandomLayer_loop weights ratio_imprim imprimitive rotations wires rnd (Suc i)
           (int (Suc i), q @ [rotation_gate weights rotations wires rnd i i])
        = Some ((q @ [rotation_gate weights rotations wires rnd i i])
                  @ map (\<lambda>j. rotation_gate weights rotations wires rnd j j) [Suc i..<length weights], None)"
    by (rule Suc.hyps(1)) (use Suc.hyps(2) i in auto)
  then show ?case
    using i by (simp add: RandomLayer_loop_rotation assms(1,2,3) upt_conv_Cons del: of_nat_Suc)
qed








text \<open>
  C4 says that with \<open>ratio_imprim = 0\<close> no imprimitive gate is emitted, for every
  sequence of draws in \<open>[0, 1)\<close> and every list of rotations. The test of the loop is
  \<open>u > ratio_imprim\<close>, so a draw \<open>u = 0\<close> takes the imprimitive branch; and on an empty
  list of rotations \<^verbatim>\<open>np.random.choice\<close> raises.
\<close>

theorem RandomLayer_no_imprimitive_counterexample:
  "u (zero_then_half 0) = 0
   \<and> RandomLayer [7 :: int] 0 CNOT [RX, RY, RZ] [0, 1 :: nat] zero_then_half
        = Some ([Op CNOT [] [0, 1], Op RX [7] [0]], None)
   \<and> RandomLayer [7 :: int] 0 CNOT [] [0, 1 :: nat] always_half
        = Some ([], Some (ValueError choice_msg))"
  by (simp add: RandomLayer_def RandomLayer_loop.simps RandomLayer_body_def zero_then_half_def
      always_half_def attempt_def choice_def permutation_def index_def)

text \<open>
  C4, amended. On two or more wires, with a non-empty list of rotations,
  \<open>ratio_imprim = 0\<close> and draws \<open>u\<close> that are all positive, the layer emits exactly one
  single-wire rotation per weight entry and nothing else, the \<open>j\<close>-th with
  \<open>weights[j]\<close>.
\<close>

theorem RandomLayer_no_imprimitive:
  assumes "2 \<le> length wires" and "rotations \<noteq> []" and "\<forall>t. 0 < u (rnd t)"
  shows "RandomLayer weights 0 imprimitive rotations wires rnd
           = Some (map (\<lambda>j. Op (rotations ! (gate_draw (rnd j) mod length rotations)) [weights ! j]
                              [wires ! (wire_draw (rnd j) mod length wires)])
                       [0..<length weights], None)"
proof -
  have "wires \<noteq> []" using assms(1) by auto
  then have "RandomLayer_loop weights 0 imprimitive rotations wires rnd 0 (int 0, [])
       = Some ([] @ map (\<lambda>j. rotation_gate weights rotations wires rnd j j) [0..<length weights], None)"
    using assms(2,3) by (intro RandomLayer_loop_all_rotations) simp_all
  then show ?thesis
    using assms(1) by (simp add: RandomLayer_def rotation_gate_def)
qed

theorem RandomLayer_no_imprimitive_witness:
  "2 \<le> length [0, 1 :: nat] \<and> [RX, RY, RZ] \<noteq> [] \<and> (\<forall>t. 0 < u (always_half t))
   \<and> RandomLayer [7, 8 :: int] 0 CNOT [RX, RY, RZ] [0, 1 :: nat] always_half
        = Some ([Op RX [7] [0], Op RX [8] [0]], None)"
proof -
  have h: "2 \<le> length [0, 1 :: nat]" "[RX, RY, RZ] \<noteq> []" "\<forall>t. 0 < u (always_half t)"
    by (simp_all add: always_half_def)
  have d: "gate_draw (always_half t) = 0" "wire_draw (always_half t) = 0" for t
    by (simp_all add: always_half_def)
  show ?thesis
    using h RandomLayer_no_imprimitive [OF h, of "[7, 8 :: int]" CNOT]
    by (simp add: d upt_rec)
qed




section \<open>Interferometer: the clements convention against the standard one\<close>

lemma two_mode_clements_form:
  "filter two_mode (clements_form g) = (if two_mode g then [zero_phase g] else [])"
  by (cases g) (auto simp: clements_form_def zero_phase_def two_mode_def)

lemma two_mode_clements:
  "filter two_mode (concat (map clements_form q)) = map zero_phase (filter two_mode q)"
  by (induction q) (simp_all add: two_mode_clements_form)

lemma same_mesh_two_mode: "same_mesh s c \<Longrightarrow> same_two_mode s c"
  by (simp add: same_mesh_def same_two_mode_def two_mode_clements)

lemma for_loop_same:
  assumes "\<And>x s c. x \<in> set xs \<Longrightarrow> same_mesh s c \<Longrightarrow> same_outcome (body1 x s) (body2 x c)"
    and "same_mesh s c"
  shows "same_outcome (for_loop xs body1 s) (for_loop xs body2 c)"
  using assms
proof (induction xs arbitrary: s c)
  case Nil
  then show ?case by (simp add: same_outcome_def)
next
  case (Cons x xs)
  obtain s1 e1 where b1: "body1 x s = (s1, e1)" by (cases "body1 x s")
  obtain c1 e2 where b2: "body2 x c = (c1, e2)" by (cases "body2 x c")
  have step: "same_outcome (s1, e1) (c1, e2)"
    using Cons.prems(1) [of x s c] Cons.prems(2) b1 b2 by simp
  show ?case
  proof (cases e1)
    case None
    with step have e2: "e2 = None" and m: "same_mesh s1 c1" by (simp_all add: same_outcome_def)
    have "same_outcome (for_loop xs body1 s1) (for_loop xs body2 c1)"
      by (rule Cons.IH) (use Cons.prems(1) m in auto)
    with b1 b2 None e2 show ?thesis by simp
  next
    case (Some err)
    with step b1 b2 show ?thesis by (auto simp: same_outcome_def)
  qed
qed

lemma rectangular_body_same:
  assumes "beamsplitter \<noteq> Str ''clements''" and "same_mesh s c"
  shows "same_outcome (rectangular_body theta phi beamsplitter l x s)
                      (rectangular_body theta phi (Str ''clements'') l x c)"
proof -
  obtain q n where s: "s = (q, n)" by (cases s)
  with assms(2) have c: "c = (concat (map clements_form q), n)"
    by (cases c) (simp add: same_mesh_def)
  obtain k w1 w2 where x: "x = (k, (w1, w2))" by (cases x) auto
  show ?thesis
  proof (cases "(l + k) mod 2 \<noteq> 1")
    case False
    then show ?thesis
      using assms(2) by (simp add: rectangular_body_def x same_outcome_def)
  next
    case True
    show ?thesis
    proof (cases "index theta n")
      case (Inl e)
      then have "e = IndexError" by (rule index_error)
      with Inl True assms(1) show ?thesis
        by (cases "index phi n")
           (auto simp: rectangular_body_def x s c seq_def attempt_def emit_m_def same_outcome_def
              same_two_mode_def two_mode_clements two_mode_def dest: index_error)
    next
      case t: (Inr t)
      show ?thesis
      proof (cases "index phi n")
        case (Inl e)
        with t True assms(1) show ?thesis
          by (simp add: rectangular_body_def x s c seq_def attempt_def same_outcome_def
              same_two_mode_def two_mode_clements)
      next
        case (Inr p)
        with t True assms(1) show ?thesis
          by (simp add: rectangular_body_def x s c seq_def attempt_def emit_m_def incr_n_def
              same_outcome_def same_mesh_def clements_form_def)
      qed
    qed
  qed
qed

lemma triangular_body_same:
  assumes "beamsplitter \<noteq> Str ''clements''" and "same_mesh s c"
  shows "same_outcome (triangular_body theta phi w beamsplitter k s)
                      (triangular_body theta phi w (Str ''clements'') k c)"
proof -
  obtain q n where s: "s = (q, n)" by (cases s)
  with assms(2) have c: "c = (concat (map clements_form q), n)"
    by (cases c) (simp add: same_mesh_def)
  have err: "e = IndexError" if "index theta n = Inl e \<or> index phi n = Inl e
      \<or> index w k = Inl e \<or> index w (k + 1) = Inl e" for e
    using that by (auto dest: index_error)
  show ?thesis
  proof (cases "index theta n")
    case (Inl e)
    with assms(1) err show ?thesis
      by (cases "index phi n"; cases "index w k")
         (auto simp: triangular_body_def s c seq_def attempt_def emit_m_def same_outcome_def
            same_two_mode_def two_mode_clements two_mode_def)
  next
    case t: (Inr t)
    show ?thesis
    proof (cases "index phi n")
      case (Inl e)
      with t assms(1) show ?thesis
        by (simp add: triangular_body_def s c seq_def attempt_def same_outcome_def
            same_two_mode_def two_mode_clements)
    next
      case p: (Inr p)
      show ?thesis
      proof (cases "index w k")
        case (Inl e)
        with t p assms(1) show ?thesis
          by (simp add: triangular_body_def s c seq_def attempt_def same_outcome_def
              same_two_mode_def two_mode_clements)
      next
        case w1: (Inr w1)
        show ?thesis
        proof (cases "index w (k + 1)")
          case (Inl e)
          with t p w1 assms(1) err [of e] show ?thesis
            by (simp add: triangular_body_def s c seq_def attempt_def emit_m_def same_outcome_def
                same_two_mode_def two_mode_clements two_mode_def)
        next
          case (Inr w2)
          with t p w1 assms(1) show ?thesis
            by (simp add: triangular_body_def s c seq_def attempt_def emit_m_def incr_n_def
                same_outcome_def same_mesh_def clements_form_def)
        qed
      qed
    qed
  qed
qed

lemma rectangular_mesh_same:
  assumes "beamsplitter \<noteq> Str ''clements''"
  shows "same_outcome (rectangular_mesh theta phi w beamsplitter ([], 0))
                      (rectangular_mesh theta phi w (Str ''clements'') ([], 0))"
  unfolding rectangular_mesh_def
  by (intro for_loop_same rectangular_body_same assms) (simp_all add: same_mesh_def)

lemma triangular_mesh_same:
  assumes "beamsplitter \<noteq> Str ''clements''"
  shows "same_outcome (triangular_mesh theta phi w beamsplitter ([], 0))
                      (triangular_mesh theta phi w (Str ''clements'') ([], 0))"
  unfolding triangular_mesh_def Let_def
  by (intro for_loop_same triangular_body_same assms) (simp_all add: same_mesh_def)

lemma for_loop_uniform:
  assumes "\<And>x q. x \<in> set xs \<Longrightarrow> body x q = (q @ g x, e x)"
  shows "for_loop xs body q = (q @ fst (for_loop xs body []), snd (for_loop xs body []))"
  using assms
proof (induction xs arbitrary: q)
  case Nil
  then show ?case by simp
next
  case (Cons x xs)
  have b: "body x q' = (q' @ g x, e x)" for q'
    using Cons.prems [of x q'] by simp
  have IH: "for_loop xs body q' = (q' @ fst (for_loop xs body []), snd (for_loop xs body []))" for q'
    by (rule Cons.IH) (use Cons.prems in auto)
  show ?case
  proof (cases "e x")
    case None
    then show ?thesis
      using b [of q] b [of "[]"] IH [of "q @ g x"] IH [of "g x"] by simp
  next
    case (Some err)
    then show ?thesis
      using b [of q] b [of "[]"] by simp
  qed
qed

lemma final_rotations_append:
  "final_rotations varphi w q
     = (q @ fst (final_rotations varphi w []), snd (final_rotations varphi w []))"
  unfolding final_rotations_def
  by (rule for_loop_uniform
      [where g = "\<lambda>(i, p). case index w i of Inl e \<Rightarrow> [] | Inr wi \<Rightarrow> [Op Rotation [p] [wi]]"
         and e = "\<lambda>(i, p). case index w i of Inl e \<Rightarrow> Some e | Inr wi \<Rightarrow> None"])
     (auto simp: attempt_def emit_def split: sum.splits)

lemma final_rotations_names:
  "filter (\<lambda>g. op_name g \<noteq> Rotation) (fst (final_rotations varphi w q))
     = filter (\<lambda>g. op_name g \<noteq> Rotation) q"
  unfolding final_rotations_def
  by (rule for_loop_filter) (auto simp: attempt_def emit_def split: sum.splits)

lemma clements_form_rotations:
  "filter (\<lambda>g. op_name g \<noteq> Rotation) q = [] \<Longrightarrow> concat (map clements_form q) = q"
  by (induction q) (auto simp: clements_form_def split: if_splits)

lemma final_rotations_clements:
  "concat (map clements_form (fst (final_rotations varphi w []))) = fst (final_rotations varphi w [])"
  by (rule clements_form_rotations) (simp add: final_rotations_names)

text \<open>
  C6. On the same inputs and for every mesh, the interferometer under
  \<open>beamsplitter = 'clements'\<close> and under any other static convention (\<open>'standard'\<close>, or
  the default \<open>'pennylane'\<close>) raises the same exception or none, and emits the same
  two-mode gates on the same wires in the same order with the same \<open>theta[n]\<close>, the
  phase replaced by \<open>0\<close>; when the call returns normally, the queue under \<open>clements\<close> is
  the standard one with every beamsplitter \<open>(theta[n], phi[n])\<close> replaced by a rotation by
  \<open>phi[n]\<close> on its first wire followed by the beamsplitter \<open>(theta[n], 0)\<close>.
\<close>

theorem Interferometer_clements:
  assumes "beamsplitter \<noteq> Variable" and "beamsplitter \<noteq> Str ''clements''"
  shows "snd (Interferometer theta phi varphi wires mesh (Str ''clements''))
           = snd (Interferometer theta phi varphi wires mesh beamsplitter)
       \<and> filter two_mode (fst (Interferometer theta phi varphi wires mesh (Str ''clements'')))
           = map zero_phase
               (filter two_mode (fst (Interferometer theta phi varphi wires mesh beamsplitter)))
       \<and> (snd (Interferometer theta phi varphi wires mesh beamsplitter) = None \<longrightarrow>
            fst (Interferometer theta phi varphi wires mesh (Str ''clements''))
              = concat (map clements_form
                  (fst (Interferometer theta phi varphi wires mesh beamsplitter))))"
proof -
  let ?S = "Interferometer theta phi varphi wires mesh beamsplitter"
  let ?C = "Interferometer theta phi varphi wires mesh (Str ''clements'')"
  define w where "w = (case wires of Seq ws \<Rightarrow> ws | NotSeq x \<Rightarrow> [x])"
  let ?ms = "if mesh = Str ''rectangular'' then rectangular_mesh theta phi w beamsplitter ([], 0)
             else if mesh = Str ''triangular'' then triangular_mesh theta phi w beamsplitter ([], 0)
             else (([], 0), None)"
  let ?mc = "if mesh = Str ''rectangular'' then rectangular_mesh theta phi w (Str ''clements'') ([], 0)
             else if mesh = Str ''triangular'' then triangular_mesh theta phi w (Str ''clements'') ([], 0)
             else (([], 0), None)"
  have goal: "snd ?C = snd ?S
       \<and> filter two_mode (fst ?C) = map zero_phase (filter two_mode (fst ?S))
       \<and> (snd ?S = None \<longrightarrow> fst ?C = concat (map clements_form (fst ?S)))"
    if "snd ?C = snd ?S" "fst ?C = concat (map clements_form (fst ?S))"
    using that by (simp add: two_mode_clements)
  show ?thesis
  proof (cases "mesh = Variable")
    case True
    then show ?thesis using assms(1) by (simp add: Interferometer_def)
  next
    case mesh: False
    show ?thesis
    proof (cases "length w = 1")
      case True
      have "?C = ?S"
        using assms(1) mesh True unfolding w_def by (simp add: Interferometer_def Let_def)
      moreover have "concat (map clements_form (fst ?S)) = fst ?S"
        using assms(1) mesh True
        unfolding w_def
        by (cases "index varphi 0";
            cases "index (case wires of Seq ws \<Rightarrow> ws | NotSeq x \<Rightarrow> [x]) 0")
           (simp_all add: Interferometer_def Let_def attempt_def emit_def clements_form_def)
      ultimately show ?thesis by (intro goal) simp_all
    next
      case N: False
      have S: "?S = (case ?ms of ((q, n), Some e) \<Rightarrow> (q, Some e)
                      | ((q, n), None) \<Rightarrow> final_rotations varphi w q)"
        using assms(1) mesh N unfolding w_def by (simp add: Interferometer_def Let_def)
      have C: "?C = (case ?mc of ((q, n), Some e) \<Rightarrow> (q, Some e)
                      | ((q, n), None) \<Rightarrow> final_rotations varphi w q)"
        using mesh N unfolding w_def by (simp add: Interferometer_def Let_def)
      have rel: "same_outcome ?ms ?mc"
      proof (cases "mesh = Str ''rectangular''")
        case True
        then show ?thesis by (simp add: rectangular_mesh_same assms(2))
      next
        case r: False
        show ?thesis
        proof (cases "mesh = Str ''triangular''")
          case True
          with r show ?thesis by (simp add: triangular_mesh_same assms(2))
        next
          case False
          with r show ?thesis by (simp add: same_outcome_def same_mesh_def)
        qed
      qed
      obtain qs ns es where ms: "?ms = ((qs, ns), es)" by (cases ?ms) auto
      obtain qc nc ec where mc: "?mc = ((qc, nc), ec)" by (cases ?mc) auto
      show ?thesis
      proof (cases es)
        case None
        with rel ms mc have ec: "ec = None" and qc: "qc = concat (map clements_form qs)"
          by (simp_all add: same_outcome_def same_mesh_def)
        have Sv: "?S = final_rotations varphi w qs" unfolding S ms using None by simp
        have Cv: "?C = final_rotations varphi w qc" unfolding C mc using ec by simp
        show ?thesis
        proof (intro goal)
          show "snd ?C = snd ?S"
            unfolding Sv Cv
            by (subst final_rotations_append, subst (2) final_rotations_append) simp
          show "fst ?C = concat (map clements_form (fst ?S))"
            unfolding Sv Cv
            by (subst final_rotations_append, subst (2) final_rotations_append)
               (simp add: qc final_rotations_clements)
        qed
      next
        case (Some err)
        with rel ms mc have ec: "ec = Some err"
          and two: "filter two_mode qc = map zero_phase (filter two_mode qs)"
          by (simp_all add: same_outcome_def same_two_mode_def)
        have "?S = (qs, Some err)" unfolding S ms using Some by simp
        moreover have "?C = (qc, Some err)" unfolding C mc using ec by simp
        ultimately show ?thesis using two by simp
      qed
    qed
  qed
qed

theorem Interferometer_clements_witness:
  "Str ''standard'' \<noteq> Variable \<and> Str ''standard'' \<noteq> Str ''clements''
   \<and> snd (Interferometer [1, 2, 3 :: int] [11, 12, 13] [21, 22, 23] (Seq [0, 1, 2 :: nat])
          (Str ''rectangular'') (Str ''standard'')) = None
   \<and> Interferometer [1, 2, 3 :: int] [11, 12, 13] [21, 22, 23] (Seq [0, 1, 2 :: nat])
        (Str ''rectangular'') (Str ''clements'')
      = ([Op Rotation [11] [0], Op Beamsplitter [1, 0] [0, 1],
          Op Rotation [12] [1], Op Beamsplitter [2, 0] [1, 2],
          Op Rotation [13] [0], Op Beamsplitter [3, 0] [0, 1],
          Op Rotation [21] [0], Op Rotation [22] [1], Op Rotation [23] [2]], None)"
proof -
  have h: "Str ''standard'' \<noteq> Variable" "Str ''standard'' \<noteq> Str ''clements''"
    by simp_all
  have s: "Interferometer [1, 2, 3 :: int] [11, 12, 13] [21, 22, 23] (Seq [0, 1, 2 :: nat])
     (Str ''rectangular'') (Str ''standard'')
   = ([Op Beamsplitter [1, 11] [0, 1], Op Beamsplitter [2, 12] [1, 2], Op Beamsplitter [3, 13] [0, 1],
       Op Rotation [21] [0], Op Rotation [22] [1], Op Rotation [23] [2]], None)"
    by (simp add: Interferometer_def rectangular_mesh_def rectangular_body_def range1_def
      enumerate_py_def final_rotations_def seq_def attempt_def emit_m_def emit_def incr_n_def
      index_def upt_rec)
  from Interferometer_clements [OF h, of "[1, 2, 3 :: int]" "[11, 12, 13]" "[21, 22, 23]"
      "Seq [0, 1, 2 :: nat]" "Str ''rectangular''"]
  have "snd (Interferometer [1, 2, 3 :: int] [11, 12, 13] [21, 22, 23] (Seq [0, 1, 2 :: nat])
          (Str ''rectangular'') (Str ''clements'')) = None"
    and "fst (Interferometer [1, 2, 3 :: int] [11, 12, 13] [21, 22, 23] (Seq [0, 1, 2 :: nat])
          (Str ''rectangular'') (Str ''clements''))
         = [Op Rotation [11] [0], Op Beamsplitter [1, 0] [0, 1],
          Op Rotation [12] [1], Op Beamsplitter [2, 0] [1, 2],
          Op Rotation [13] [0], Op Beamsplitter [3, 0] [0, 1],
          Op Rotation [21] [0], Op Rotation [22] [1], Op Rotation [23] [2]]"
    unfolding s by (simp_all add: clements_form_def)
  then show ?thesis
    using h s by (simp add: prod_eq_iff)
qed

end
